theory Spec2Isabelle
  imports Main
begin

section \<open>Constants and C arithmetic\<close>

text \<open>
  The limits of \<^verbatim>\<open>linuxShell.c\<close>: \<^verbatim>\<open>MAX_LENGTH 1024\<close>, \<^verbatim>\<open>MAX_ARGS 64\<close>,
  \<^verbatim>\<open>BUFFER_SIZE 5\<close>. The \<^verbatim>\<open>int\<close> variables of the program stay far inside the
  range of a machine integer (between -1 and 1024), so they are modelled as \<open>int\<close>.
\<close>

definition MAX_LENGTH :: int where
  "MAX_LENGTH = 1024"

definition MAX_ARGS :: int where
  "MAX_ARGS = 64"

definition BUFFER_SIZE :: int where
  "BUFFER_SIZE = 5"

text \<open>
  C's \<^verbatim>\<open>%\<close> truncates towards zero: the remainder has the sign of the dividend.
  It agrees with HOL's \<open>mod\<close> only on a non-negative dividend.
\<close>

definition c_rem :: "int \<Rightarrow> int \<Rightarrow> int" where
  "c_rem a b = (if 0 \<le> a then a mod \<bar>b\<bar> else - ((- a) mod \<bar>b\<bar>))"

section \<open>The history buffer\<close>

text \<open>
  The globals \<^verbatim>\<open>history\<close>, \<^verbatim>\<open>command_count\<close>, \<^verbatim>\<open>next_command\<close> and
  \<^verbatim>\<open>buffer_index\<close>. A slot \<^verbatim>\<open>history[i]\<close> is only ever read and written as a C
  string (\<^verbatim>\<open>strcpy\<close>, \<^verbatim>\<open>strcmp\<close>), so a slot is modelled by the bytes before its
  first NUL. The index \<^verbatim>\<open>history[i]\<close> is \<open>history st ! nat i\<close>; the invariant
  \<open>hist_inv\<close> below keeps every index the program uses inside \<open>0..4\<close>.
\<close>

record shell =
  history :: "string list"
  command_count :: int
  next_command :: int
  buffer_index :: int

definition init_shell :: shell where
  "init_shell = \<lparr> history = replicate 5 [], command_count = 0,
                   next_command = 0, buffer_index = - 1 \<rparr>"

text \<open>\<^verbatim>\<open>add_to_buffer\<close> (lines 255-275).\<close>

definition add_to_buffer :: "shell \<Rightarrow> string \<Rightarrow> shell" where
  "add_to_buffer st cmd =
     (if length cmd = 0 then st
      else if command_count st > 0 \<and>
              history st ! nat (c_rem (next_command st - 1 + BUFFER_SIZE) BUFFER_SIZE) = cmd
      then st
      else st \<lparr> history := (history st)[nat (next_command st) := cmd],
                next_command := c_rem (next_command st + 1) BUFFER_SIZE,
                command_count := (if command_count st < BUFFER_SIZE
                                  then command_count st + 1 else command_count st),
                buffer_index := - 1 \<rparr>)"

text \<open>
  The index arithmetic that \<^verbatim>\<open>get_input\<close> repeats in each of its four arrow
  branches (lines 97-103, 120-126, 173-179, 205-211).
\<close>

definition start_index :: "shell \<Rightarrow> int" where
  "start_index st = (if command_count st < BUFFER_SIZE then 0 else next_command st)"

definition most_recent :: "shell \<Rightarrow> int" where
  "most_recent st = c_rem (start_index st + command_count st - 1) BUFFER_SIZE"

text \<open>One simulated up-arrow keypress of the warm-up (lines 96-115).\<close>

definition sim_up :: "shell \<Rightarrow> shell" where
  "sim_up st =
     (if command_count st > 0 then
        (if buffer_index st = - 1 then st \<lparr> buffer_index := most_recent st \<rparr>
         else if buffer_index st = start_index st then st
         else st \<lparr> buffer_index := c_rem (buffer_index st - 1 + BUFFER_SIZE) BUFFER_SIZE \<rparr>)
      else st)"

text \<open>One simulated down-arrow keypress of the warm-up (lines 119-135).\<close>

definition sim_down :: "shell \<Rightarrow> shell" where
  "sim_down st =
     (if buffer_index st \<noteq> - 1 then
        (if buffer_index st = most_recent st then st \<lparr> buffer_index := - 1 \<rparr>
         else st \<lparr> buffer_index := c_rem (buffer_index st + 1) BUFFER_SIZE \<rparr>)
      else st)"

text \<open>The two \<^verbatim>\<open>for (int i = 0; i < 5; i++)\<close> loops at the head of \<^verbatim>\<open>get_input\<close>.\<close>

definition warm_up :: "shell \<Rightarrow> shell" where
  "warm_up st = (sim_down ^^ 5) ((sim_up ^^ 5) st)"

text \<open>
  The entries from the oldest to the newest, as the arrow keys walk them: from
  \<open>start_index\<close>, \<open>command_count\<close> slots, cyclically.
\<close>

definition entries :: "shell \<Rightarrow> string list" where
  "entries st =
     map (\<lambda>k. history st ! nat (c_rem (start_index st + int k) BUFFER_SIZE))
         [0 ..< nat (command_count st)]"

text \<open>
  What holds of the globals in every state the program reaches: the indices are in
  range and a browsing cursor exists only over a non-empty history (\<open>indices_ok\<close>);
  moreover there are five slots and the buffer fills from slot 0 (\<open>hist_inv\<close>).
\<close>

definition indices_ok :: "shell \<Rightarrow> bool" where
  "indices_ok st \<longleftrightarrow>
     0 \<le> command_count st \<and> command_count st \<le> BUFFER_SIZE \<and>
     0 \<le> next_command st \<and> next_command st < BUFFER_SIZE \<and>
     (buffer_index st = - 1 \<or>
      (0 \<le> buffer_index st \<and> buffer_index st < BUFFER_SIZE \<and> 0 < command_count st))"

definition hist_inv :: "shell \<Rightarrow> bool" where
  "hist_inv st \<longleftrightarrow>
     indices_ok st \<and> length (history st) = 5 \<and>
     (command_count st = BUFFER_SIZE \<or> next_command st = command_count st)"

section \<open>The line editor\<close>

text \<open>
  Standard input is the sequence of outcomes of the \<^verbatim>\<open>read(STDIN_FILENO, &x, 1)\<close> calls
  the program makes: \<open>Byte c\<close> when \<^verbatim>\<open>read\<close> returns 1 and stores \<open>c\<close>, \<open>Fail c\<close>
  when it returns -1 and stores nothing, \<open>c\<close> being the byte the destination then
  holds (\<^verbatim>\<open>seq[0]\<close> and \<^verbatim>\<open>seq[1]\<close> are uninitialised, and the program goes on to compare
  them). Once the list is used up every \<^verbatim>\<open>read\<close> returns 0, end of stream.
\<close>

datatype rd = Byte char | Fail char

fun rd_val :: "rd \<Rightarrow> char" where
  "rd_val (Byte c) = c"
| "rd_val (Fail c) = c"

text \<open>
  What the shell does to the outside world, in order: the prompt (its text depends on
  the working directory), text written to standard output and to standard error, and
  the requests to change directory and to start processes. \<open>Spawn argv bg inp out\<close> is
  one \<^verbatim>\<open>run_instruction\<close>: a forked child that redirects to \<open>out\<close>, else from \<open>inp\<close>, and
  calls \<^verbatim>\<open>execvp\<close> on \<open>argv\<close>, the parent waiting unless \<open>bg\<close>. \<open>Pipeline l r\<close> is the two
  children of \<^verbatim>\<open>handle_pipe\<close>. Whether the operating system then fails a call is not
  part of the model.
\<close>

datatype event =
    Prompt
  | Out string
  | ErrOut string
  | Chdir string
  | Pipeline "string list" "string list"
  | Spawn "string list" bool "string option" "string option"

text \<open>
  A \<^verbatim>\<open>char\<close> array that starts zeroed is modelled by the list of its bytes up to the
  last one written; every byte beyond the list is NUL.
\<close>

definition NUL :: char where
  "NUL = CHR 0x00"

definition poke :: "char list \<Rightarrow> nat \<Rightarrow> char \<Rightarrow> char list" where
  "poke b i c = (if i < length b then b[i := c]
                 else b @ replicate (i - length b) NUL @ [c])"

definition c_str :: "char list \<Rightarrow> string" where
  "c_str b = takeWhile (\<lambda>c. c \<noteq> NUL) b"

definition strcpy :: "char list \<Rightarrow> string \<Rightarrow> char list" where
  "strcpy b s = s @ NUL # drop (length s + 1) b"

text \<open>The locals \<^verbatim>\<open>buf\<close> and \<^verbatim>\<open>count\<close> of \<^verbatim>\<open>get_input\<close>, the globals, and the output so far.\<close>

record editor =
  ed_shell :: shell
  ed_buf :: "char list"
  ed_count :: int
  ed_out :: "event list"

definition clear_line :: string where
  "clear_line = [CHR 0x1B, CHR ''['', CHR ''2'', CHR ''K'', CHR 0x0D]"

text \<open>Lines 191-198 and 226-233: redraw the line with the entry under the cursor.\<close>

definition load_entry :: "editor \<Rightarrow> editor" where
  "load_entry e =
     (let b = strcpy (ed_buf e) (history (ed_shell e) ! nat (buffer_index (ed_shell e)))
      in e \<lparr> ed_buf := b, ed_count := int (length (c_str b)),
              ed_out := ed_out e @ [Out clear_line, Prompt, Out (c_str b)] \<rparr>)"

text \<open>
  Up arrow (lines 170-200). The cursor moves as in \<open>sim_up\<close>; at the oldest entry the
  \<^verbatim>\<open>continue\<close> skips the redraw.
\<close>

definition key_up :: "editor \<Rightarrow> editor" where
  "key_up e =
     (let st = ed_shell e in
      if command_count st > 0 then
        (if buffer_index st = - 1 then
           load_entry (e \<lparr> ed_shell := st \<lparr> buffer_index := most_recent st \<rparr> \<rparr>)
         else if buffer_index st = start_index st then e
         else load_entry (e \<lparr> ed_shell :=
                st \<lparr> buffer_index := c_rem (buffer_index st - 1 + BUFFER_SIZE) BUFFER_SIZE \<rparr> \<rparr>))
      else e)"

text \<open>Down arrow (lines 202-235).\<close>

definition key_down :: "editor \<Rightarrow> editor" where
  "key_down e =
     (let st = ed_shell e in
      if buffer_index st \<noteq> - 1 then
        (if buffer_index st = most_recent st then
           e \<lparr> ed_shell := st \<lparr> buffer_index := - 1 \<rparr>, ed_buf := poke (ed_buf e) 0 NUL,
               ed_count := 0, ed_out := ed_out e @ [Out clear_line, Prompt] \<rparr>
         else load_entry (e \<lparr> ed_shell :=
                st \<lparr> buffer_index := c_rem (buffer_index st + 1) BUFFER_SIZE \<rparr> \<rparr>))
      else e)"

text \<open>Backspace (lines 152-159) and an ordinary character (lines 237-244).\<close>

definition backspace :: "editor \<Rightarrow> editor" where
  "backspace e =
     (if ed_count e > 0
      then e \<lparr> ed_count := ed_count e - 1,
               ed_out := ed_out e @ [Out [CHR 0x08, CHR '' '', CHR 0x08]] \<rparr>
      else e)"

definition insert_char :: "editor \<Rightarrow> char \<Rightarrow> editor" where
  "insert_char e c =
     (if ed_count e < MAX_LENGTH - 1
      then e \<lparr> ed_buf := poke (ed_buf e) (nat (ed_count e)) c,
               ed_count := ed_count e + 1, ed_out := ed_out e @ [Out [c]] \<rparr>
      else e)"

text \<open>
  The \<^verbatim>\<open>while (1)\<close> loop of \<^verbatim>\<open>get_input\<close> (lines 139-245). It returns the editor at the
  \<^verbatim>\<open>break\<close> and the input not yet read. After ESC the loop reads two more bytes; a
  \<^verbatim>\<open>read\<close> that returns 0 there is a \<^verbatim>\<open>continue\<close>, and the next \<^verbatim>\<open>read\<close> at the head of
  the loop returns 0 again.
\<close>

fun get_input_loop :: "editor \<Rightarrow> rd list \<Rightarrow> editor \<times> rd list" where
  "get_input_loop e [] = (e, [])"
| "get_input_loop e (Fail x # rest) = (e, rest)"
| "get_input_loop e (Byte c # rest) =
     (if c = CHR 0x0A \<or> c = CHR 0x0D then
        (e \<lparr> ed_buf := poke (ed_buf e) (nat (ed_count e)) NUL,
             ed_out := ed_out e @ [Out [CHR 0x0A]] \<rparr>, rest)
      else if c = CHR 0x7F \<or> c = CHR 0x08 then get_input_loop (backspace e) rest
      else if c = CHR 0x1B then
        (case rest of
           [] \<Rightarrow> get_input_loop e []
         | [s0] \<Rightarrow> get_input_loop e []
         | s0 # s1 # rest' \<Rightarrow>
             if rd_val s0 = CHR ''['' \<and> rd_val s1 = CHR ''A''
             then get_input_loop (key_up e) rest'
             else if rd_val s0 = CHR ''['' \<and> rd_val s1 = CHR ''B''
             then get_input_loop (key_down e) rest'
             else get_input_loop e rest')
      else get_input_loop (insert_char e c) rest)"

text \<open>
  \<^verbatim>\<open>get_input\<close> (lines 87-247): clear \<^verbatim>\<open>buf\<close>, warm up, run the loop. The value the C
  function returns is \<open>ed_count\<close> of the editor returned here.
\<close>

definition get_input :: "shell \<Rightarrow> rd list \<Rightarrow> editor \<times> rd list" where
  "get_input st inp =
     get_input_loop \<lparr> ed_shell = warm_up st, ed_buf = [], ed_count = 0, ed_out = [] \<rparr> inp"

section \<open>Tokenizer\<close>

text \<open>
  The successive results of \<^verbatim>\<open>strtok(input, " ")\<close>, \<^verbatim>\<open>strtok(NULL, " ")\<close>, ...: skip the
  spaces, take the bytes up to the next space, go on behind it; \<^verbatim>\<open>NULL\<close> (here the end
  of the list) once only spaces are left. \<open>cur\<close> is the token being read.
\<close>

fun strtok_from :: "string \<Rightarrow> string \<Rightarrow> string list" where
  "strtok_from cur [] = (if cur = [] then [] else [cur])"
| "strtok_from cur (c # cs) =
     (if c = CHR '' '' then (if cur = [] then strtok_from [] cs else cur # strtok_from [] cs)
      else strtok_from (cur @ [c]) cs)"

definition strtok_all :: "string \<Rightarrow> string list" where
  "strtok_all input = strtok_from [] input"

text \<open>
  The loop of \<^verbatim>\<open>divide_args\<close> (lines 288-295) over the segments still to come; \<open>args\<close>
  holds \<^verbatim>\<open>args[0..i-1]\<close>, so \<open>i\<close> is its length.
\<close>

fun divide_loop :: "string list \<Rightarrow> string list \<Rightarrow> bool \<Rightarrow> string list \<times> bool" where
  "divide_loop [] args background = (args, background)"
| "divide_loop (segment # segs) args background =
     (if int (length args) < MAX_ARGS - 1 then
        (if segment = ''&'' then divide_loop segs args True
         else divide_loop segs (args @ [segment]) background)
      else (args, background))"

text \<open>
  \<^verbatim>\<open>divide_args\<close> (lines 283-299). The argument vector is a list of pointers, \<open>None\<close>
  for \<^verbatim>\<open>NULL\<close>; it is returned up to the terminating \<^verbatim>\<open>NULL\<close> at \<^verbatim>\<open>args[i]\<close>, and nothing
  reads the array behind that index. The result is the vector, the count \<open>i\<close> and
  the background flag.
\<close>

definition divide_args :: "string \<Rightarrow> bool \<Rightarrow> string option list \<times> int \<times> bool" where
  "divide_args input background =
     (case divide_loop (strtok_all input) [] background of
        (args, bg) \<Rightarrow> (map Some args @ [None], int (length args), bg))"

text \<open>The vector \<^verbatim>\<open>execvp\<close> sees: the entries before the first \<^verbatim>\<open>NULL\<close>.\<close>

definition argv_of :: "string option list \<Rightarrow> string list" where
  "argv_of args = map the (takeWhile (\<lambda>a. a \<noteq> None) args)"

section \<open>Builtins, pipe, redirection, execution\<close>

datatype builtin = ExitShell | Handled "event list" | NotBuiltin

text \<open>\<^verbatim>\<open>handle_cd_and_exit\<close> (lines 307-326); \<open>ExitShell\<close> is \<^verbatim>\<open>exit(0)\<close>.\<close>

definition handle_cd_and_exit :: "string option list \<Rightarrow> builtin" where
  "handle_cd_and_exit args =
     (if args ! 0 = Some ''exit'' then ExitShell
      else if args ! 0 = Some ''cd'' then
        (case args ! 1 of
           None \<Rightarrow> Handled [ErrOut (''cd: expected argument'' @ [CHR 0x0A])]
         | Some dir \<Rightarrow> Handled [Chdir dir])
      else NotBuiltin)"

text \<open>The scan for \<^verbatim>\<open>|\<close> of \<^verbatim>\<open>handle_pipe\<close> (lines 335-342).\<close>

function scan_pipe :: "string option list \<Rightarrow> int \<Rightarrow> int \<Rightarrow> int" where
  "scan_pipe args argc j =
     (if j < argc then (if args ! nat j = Some ''|'' then j else scan_pipe args argc (j + 1))
      else - 1)"
  by pat_completeness auto
termination
  by (relation "measure (\<lambda>(args, argc, j). nat (argc - j))") auto

declare scan_pipe.simps [simp del]

text \<open>\<^verbatim>\<open>handle_pipe\<close> (lines 334-405): \<open>None\<close> is the return value 0, no pipe found.\<close>

definition handle_pipe :: "string option list \<Rightarrow> int \<Rightarrow> event list option" where
  "handle_pipe args argc =
     (let pipe_index = scan_pipe args argc 0 in
      if pipe_index \<noteq> - 1 then
        (let args' = args[nat pipe_index := None]
         in Some [Pipeline (argv_of args') (argv_of (drop (nat (pipe_index + 1)) args'))])
      else None)"

text \<open>
  \<^verbatim>\<open>handle_input_or_output\<close> (lines 413-426), from index \<open>j\<close> on. The result is the
  vector and the two file pointers.
\<close>

function redirect_loop ::
  "string option list \<Rightarrow> int \<Rightarrow> int \<Rightarrow> string option \<Rightarrow> string option
     \<Rightarrow> string option list \<times> string option \<times> string option" where
  "redirect_loop args argc j input_file output_file =
     (if j < argc then
        (if args ! nat j = Some ''>'' then (args[nat j := None], input_file, args ! nat (j + 1))
         else if args ! nat j = Some ''<'' then (args[nat j := None], args ! nat (j + 1), output_file)
         else redirect_loop args argc (j + 1) input_file output_file)
      else (args, input_file, output_file))"
  by pat_completeness auto
termination
  by (relation "measure (\<lambda>(args, argc, j, i, out). nat (argc - j))") auto

declare redirect_loop.simps [simp del]

definition handle_input_or_output ::
  "string option list \<Rightarrow> int \<Rightarrow> string option \<Rightarrow> string option
     \<Rightarrow> string option list \<times> string option \<times> string option" where
  "handle_input_or_output args argc input_file output_file =
     redirect_loop args argc 0 input_file output_file"

text \<open>\<^verbatim>\<open>run_instruction\<close> (lines 434-487).\<close>

definition run_instruction ::
  "string option list \<Rightarrow> bool \<Rightarrow> string option \<Rightarrow> string option \<Rightarrow> event list" where
  "run_instruction args background input_file output_file =
     [Spawn (argv_of args) background input_file output_file]"

section \<open>The shell loop\<close>

text \<open>
  The recall branch of \<^verbatim>\<open>main\<close> (lines 521-534): \<open>None\<close> is the \<^verbatim>\<open>continue\<close> on an empty
  history; otherwise the globals, the line to run and what was printed.
\<close>

definition no_history_msg :: string where
  "no_history_msg = ''No commands in history.'' @ [CHR 0x0A]"

definition recall_or_record :: "shell \<Rightarrow> string \<Rightarrow> (shell \<times> string \<times> event list) option" where
  "recall_or_record st input =
     (if input = ''!!'' then
        (if command_count st = 0 then None
         else
           (let last_cmd =
                  history st ! nat (c_rem (next_command st - 1 + BUFFER_SIZE) BUFFER_SIZE)
            in Some (st, last_cmd, [Out (last_cmd @ [CHR 0x0A])])))
      else Some (add_to_buffer st input, input, []))"

text \<open>
  Lines 537-563: tokenize the line and run it. The flag is \<open>True\<close> when the shell
  process ends in \<^verbatim>\<open>exit(0)\<close>.
\<close>

definition execute :: "string \<Rightarrow> bool \<times> event list" where
  "execute line =
     (case divide_args line False of
        (args, argc, background) \<Rightarrow>
          if args ! 0 = None then (False, [])
          else
            (case handle_cd_and_exit args of
               ExitShell \<Rightarrow> (True, [])
             | Handled evs \<Rightarrow> (False, evs)
             | NotBuiltin \<Rightarrow>
                 (case handle_pipe args argc of
                    Some evs \<Rightarrow> (False, evs)
                  | None \<Rightarrow>
                      (case handle_input_or_output args argc None None of
                         (args', input_file, output_file) \<Rightarrow>
                           (False, run_instruction args' background input_file output_file)))))"

text \<open>
  The body of the loop from line 515 on, for the C string \<open>input\<close> that \<^verbatim>\<open>get_input\<close>
  left in the buffer.
\<close>

definition run_line :: "shell \<Rightarrow> string \<Rightarrow> bool \<times> shell \<times> event list" where
  "run_line st input =
     (if length input = 0 then (False, st, [])
      else
        (case recall_or_record st input of
           None \<Rightarrow> (False, st, [Out no_history_msg])
         | Some (st', line, printed) \<Rightarrow>
             (case execute line of (halt, evs) \<Rightarrow> (halt, st', printed @ evs))))"

text \<open>
  How a run of \<^verbatim>\<open>main\<close> ends: \<open>Exited\<close> by \<^verbatim>\<open>exit(0)\<close>, \<open>Returned\<close> by the \<^verbatim>\<open>break\<close> of
  line 512 and \<^verbatim>\<open>return 0\<close>, \<open>Running\<close> when it is still in its loop.
\<close>

datatype outcome = Exited | Returned | Running

text \<open>One pass through the body of \<^verbatim>\<open>while (1)\<close> in \<^verbatim>\<open>main\<close> (lines 505-564).\<close>

definition main_iter :: "shell \<Rightarrow> rd list \<Rightarrow> outcome \<times> shell \<times> rd list \<times> event list" where
  "main_iter st inp =
     (case get_input st inp of
        (e, rest) \<Rightarrow>
          if ed_count e < 0 then (Returned, ed_shell e, rest, Prompt # ed_out e)
          else
            (case run_line (ed_shell e) (c_str (ed_buf e)) of
               (halt, st', evs) \<Rightarrow>
                 (if halt then Exited else Running, st', rest, Prompt # ed_out e @ evs)))"

text \<open>
  \<^verbatim>\<open>main\<close>, for at most \<open>n\<close> passes through its loop: the result \<open>Running\<close> says that the
  loop has not ended after \<open>n\<close> passes.
\<close>

fun main_loop :: "nat \<Rightarrow> shell \<Rightarrow> rd list \<Rightarrow> outcome \<times> shell \<times> event list" where
  "main_loop 0 st inp = (Running, st, [])"
| "main_loop (Suc n) st inp =
     (case main_iter st inp of
        (Running, st', rest, evs) \<Rightarrow>
          (case main_loop n st' rest of (r, st'', evs') \<Rightarrow> (r, st'', evs @ evs'))
      | (r, st', rest, evs) \<Rightarrow> (r, st', evs))"

section \<open>Notions used to state the properties\<close>

text \<open>The part of the globals that holds the history itself, the cursor left out.\<close>

definition stored :: "shell \<Rightarrow> string list \<times> int \<times> int" where
  "stored st = (history st, command_count st, next_command st)"

text \<open>
  What a call of \<^verbatim>\<open>add_to_buffer\<close> does to the list of entries: nothing for an empty
  command or a repetition of the newest entry, else the command is added at the end
  and, at five entries, the oldest is dropped.
\<close>

definition push :: "string list \<Rightarrow> string \<Rightarrow> string list" where
  "push v c = (if c = [] \<or> (v \<noteq> [] \<and> last v = c) then v
               else if length v < 5 then v @ [c] else tl v @ [c])"

text \<open>The events that start a process.\<close>

fun is_launch :: "event \<Rightarrow> bool" where
  "is_launch (Spawn argv bg inp out) = True"
| "is_launch (Pipeline l r) = True"
| "is_launch ev = False"

text \<open>The bytes a terminal sends for \<open>k\<close> presses of the up and of the down arrow.\<close>

definition up_keys :: "nat \<Rightarrow> rd list" where
  "up_keys k = concat (replicate k [Byte (CHR 0x1B), Byte (CHR ''[''), Byte (CHR ''A'')])"

definition down_keys :: "nat \<Rightarrow> rd list" where
  "down_keys k = concat (replicate k [Byte (CHR 0x1B), Byte (CHR ''[''), Byte (CHR ''B'')])"

section \<open>The invariant of the history buffer\<close>

lemmas cursor_defs =
  sim_up_def sim_down_def most_recent_def start_index_def c_rem_def BUFFER_SIZE_def

lemma indices_ok_sim_up: "indices_ok st \<Longrightarrow> indices_ok (sim_up st)"
  unfolding indices_ok_def cursor_defs by auto

lemma indices_ok_sim_down: "indices_ok st \<Longrightarrow> indices_ok (sim_down st)"
  unfolding indices_ok_def cursor_defs by auto

lemma hist_inv_sim_up: "hist_inv st \<Longrightarrow> hist_inv (sim_up st)"
  unfolding hist_inv_def by (simp add: indices_ok_sim_up) (simp add: sim_up_def)

lemma hist_inv_sim_down: "hist_inv st \<Longrightarrow> hist_inv (sim_down st)"
  unfolding hist_inv_def by (simp add: indices_ok_sim_down) (simp add: sim_down_def)

lemma hist_inv_add: "hist_inv st \<Longrightarrow> hist_inv (add_to_buffer st c)"
  unfolding hist_inv_def indices_ok_def add_to_buffer_def BUFFER_SIZE_def c_rem_def
  by (auto; presburger)

lemma hist_inv_init: "hist_inv init_shell"
  by (simp add: hist_inv_def indices_ok_def init_shell_def BUFFER_SIZE_def)

lemma hist_inv_foldl: "hist_inv st \<Longrightarrow> hist_inv (foldl add_to_buffer st cmds)"
  by (induction cmds arbitrary: st) (simp_all add: hist_inv_add)

lemma hist_inv_cases:
  assumes "hist_inv st"
  shows "(command_count st = 0 \<and> next_command st = 0) \<or>
         (command_count st = 1 \<and> next_command st = 1) \<or>
         (command_count st = 2 \<and> next_command st = 2) \<or>
         (command_count st = 3 \<and> next_command st = 3) \<or>
         (command_count st = 4 \<and> next_command st = 4) \<or>
         (command_count st = 5 \<and> next_command st = 0) \<or>
         (command_count st = 5 \<and> next_command st = 1) \<or>
         (command_count st = 5 \<and> next_command st = 2) \<or>
         (command_count st = 5 \<and> next_command st = 3) \<or>
         (command_count st = 5 \<and> next_command st = 4)"
  using assms unfolding hist_inv_def indices_ok_def BUFFER_SIZE_def by arith

lemma five_slots:
  assumes "hist_inv st"
  obtains a b c d e where "history st = [a, b, c, d, e]"
proof -
  from assms have "length (history st) = 5" by (simp add: hist_inv_def)
  then show ?thesis using that by (auto simp: length_Suc_conv eval_nat_numeral)
qed

section \<open>The entries under an append\<close>

lemma upt_small:
  "[0 ..< 5] = [0, 1, 2, 3, 4]" "[0 ..< 4] = [0, 1, 2, 3]" "[0 ..< 3] = [0, 1, 2]"
  "[0 ..< 2] = [0, 1]"
  by (simp_all add: upt_rec)

lemmas entries_defs =
  entries_def start_index_def c_rem_def BUFFER_SIZE_def upt_small eval_nat_numeral

lemma length_entries: "length (entries st) = nat (command_count st)"
  by (simp add: entries_def)

lemma entries_Nil_iff: "entries st = [] \<longleftrightarrow> command_count st \<le> 0"
  by (simp add: entries_def)

lemma newest_entry:
  assumes "hist_inv st" and "0 < command_count st"
  shows "history st ! nat (c_rem (next_command st - 1 + BUFFER_SIZE) BUFFER_SIZE)
           = last (entries st)"
proof -
  obtain a b c d e where h: "history st = [a, b, c, d, e]"
    using assms(1) by (rule five_slots)
  from hist_inv_cases [OF assms(1)] assms(2) show ?thesis
    by (elim disjE conjE; simp add: h entries_defs)
qed

lemma oldest_entry:
  assumes "hist_inv st" and "command_count st = 5"
  shows "history st ! nat (next_command st) = hd (entries st)"
proof -
  obtain a b c d e where h: "history st = [a, b, c, d, e]"
    using assms(1) by (rule five_slots)
  from hist_inv_cases [OF assms(1)] assms(2) show ?thesis
    by (elim disjE conjE; simp add: h entries_defs)
qed

lemma add_to_buffer_skip:
  "cmd = [] \<or> (0 < command_count st \<and>
      history st ! nat (c_rem (next_command st - 1 + BUFFER_SIZE) BUFFER_SIZE) = cmd)
   \<Longrightarrow> add_to_buffer st cmd = st"
  by (auto simp: add_to_buffer_def)

lemma add_to_buffer_store:
  "cmd \<noteq> [] \<Longrightarrow> \<not> (0 < command_count st \<and>
      history st ! nat (c_rem (next_command st - 1 + BUFFER_SIZE) BUFFER_SIZE) = cmd)
   \<Longrightarrow> add_to_buffer st cmd =
         st \<lparr> history := (history st)[nat (next_command st) := cmd],
              next_command := c_rem (next_command st + 1) BUFFER_SIZE,
              command_count := (if command_count st < BUFFER_SIZE
                                then command_count st + 1 else command_count st),
              buffer_index := - 1 \<rparr>"
  by (auto simp: add_to_buffer_def)

lemma entries_store:
  assumes "hist_inv st"
  shows "entries (st \<lparr> history := (history st)[nat (next_command st) := cmd],
              next_command := c_rem (next_command st + 1) BUFFER_SIZE,
              command_count := (if command_count st < BUFFER_SIZE
                                then command_count st + 1 else command_count st),
              buffer_index := - 1 \<rparr>)
         = (if command_count st < 5 then entries st @ [cmd] else tl (entries st) @ [cmd])"
proof -
  obtain a b c d e where h: "history st = [a, b, c, d, e]"
    using assms(1) by (rule five_slots)
  from hist_inv_cases [OF assms(1)] show ?thesis
    by (elim disjE conjE; simp add: h entries_defs)
qed

lemma entries_add:
  assumes "hist_inv st"
  shows "entries (add_to_buffer st c) = push (entries st) c"
proof (cases "c = [] \<or> (0 < command_count st \<and>
      history st ! nat (c_rem (next_command st - 1 + BUFFER_SIZE) BUFFER_SIZE) = c)")
  case True
  then have "add_to_buffer st c = st" by (rule add_to_buffer_skip)
  moreover from True assms have "push (entries st) c = entries st"
    by (auto simp: push_def newest_entry entries_Nil_iff)
  ultimately show ?thesis by simp
next
  case False
  then have "add_to_buffer st c = st \<lparr> history := (history st)[nat (next_command st) := c],
              next_command := c_rem (next_command st + 1) BUFFER_SIZE,
              command_count := (if command_count st < BUFFER_SIZE
                                then command_count st + 1 else command_count st),
              buffer_index := - 1 \<rparr>"
    by (intro add_to_buffer_store) auto
  moreover have "push (entries st) c =
      (if command_count st < 5 then entries st @ [c] else tl (entries st) @ [c])"
  proof (cases "0 < command_count st")
    case True
    with False have "last (entries st) \<noteq> c" "entries st \<noteq> []" "c \<noteq> []"
      using newest_entry [OF assms True] by (auto simp: entries_Nil_iff)
    moreover from True have "length (entries st) < 5 \<longleftrightarrow> command_count st < 5"
      by (simp add: length_entries) arith
    ultimately show ?thesis by (simp add: push_def)
  next
    case empty: False
    then have "entries st = []" by (simp add: entries_Nil_iff)
    with False empty show ?thesis by (simp add: push_def)
  qed
  ultimately show ?thesis using entries_store [OF assms] by simp
qed

lemma entries_foldl:
  "hist_inv st \<Longrightarrow> entries (foldl add_to_buffer st cmds) = foldl push (entries st) cmds"
  by (induction cmds arbitrary: st) (simp_all add: entries_add hist_inv_add)

lemma push_first:
  assumes "length v \<le> 5" and "c \<noteq> []"
  shows "\<exists>w. push v c = w @ [c] \<and> length w < 5"
proof (cases "v \<noteq> [] \<and> last v = c")
  case True
  then have "push v c = butlast v @ [c]"
    using append_butlast_last_id [of v] by (simp add: push_def)
  moreover from True assms(1) have "length (butlast v) < 5" by (cases v) auto
  ultimately show ?thesis by blast
next
  case False
  show ?thesis
  proof (cases "length v < 5")
    case True
    with False assms(2) have "push v c = v @ [c]" by (auto simp: push_def)
    with True show ?thesis by blast
  next
    case long: False
    with False assms(2) have "push v c = tl v @ [c]" by (auto simp: push_def)
    moreover from long assms(1) have "length (tl v) < 5" by simp
    ultimately show ?thesis by blast
  qed
qed

lemma push_six:
  assumes "length v \<le> 5" and "distinct [c0, c1, c2, c3, c4, c5]"
    and "[] \<notin> set [c0, c1, c2, c3, c4, c5]"
  shows "foldl push v [c0, c1, c2, c3, c4, c5] = [c1, c2, c3, c4, c5]"
proof -
  from assms(1,3) obtain w where w: "push v c0 = w @ [c0]" and lw: "length w < 5"
    using push_first [of v c0] by auto
  from lw have "length w = 0 \<or> length w = 1 \<or> length w = 2 \<or> length w = 3 \<or> length w = 4"
    by arith
  then show ?thesis
    using assms(2,3) w
    by (elim disjE) (auto simp: push_def length_Suc_conv eval_nat_numeral)
qed

section \<open>The history buffer: capacity and duplicates\<close>

text \<open>
  Claim C4. Whatever commands are appended, \<^verbatim>\<open>command_count\<close> never exceeds
  \<^verbatim>\<open>BUFFER_SIZE\<close>. On a full buffer an append that is not suppressed writes the slot
  at \<^verbatim>\<open>next_command\<close>, which holds the oldest entry, and the count stays at five: the
  entries are the old ones without the oldest, followed by the new command. So after
  six distinct non-empty commands the buffer holds the last five in the order they were
  given, and the first is gone. This holds from every state the shell reaches
  (\<open>hist_inv\<close>), the empty buffer at start included.
\<close>

theorem history_capacity:
  assumes "hist_inv st"
  shows "command_count (foldl add_to_buffer st cmds) \<le> BUFFER_SIZE \<and>
         (command_count st = BUFFER_SIZE \<and> cmd \<noteq> [] \<and> last (entries st) \<noteq> cmd \<longrightarrow>
            add_to_buffer st cmd =
              st \<lparr> history := (history st)[nat (next_command st) := cmd],
                   next_command := c_rem (next_command st + 1) BUFFER_SIZE,
                   buffer_index := - 1 \<rparr> \<and>
            history st ! nat (next_command st) = hd (entries st) \<and>
            command_count (add_to_buffer st cmd) = BUFFER_SIZE \<and>
            entries (add_to_buffer st cmd) = tl (entries st) @ [cmd]) \<and>
         (length cmds = nat BUFFER_SIZE + 1 \<and> distinct cmds \<and> [] \<notin> set cmds \<longrightarrow>
            entries (foldl add_to_buffer st cmds) = tl cmds \<and>
            hd cmds \<notin> set (entries (foldl add_to_buffer st cmds)))"
proof (intro conjI impI)
  show "command_count (foldl add_to_buffer st cmds) \<le> BUFFER_SIZE"
    using hist_inv_foldl [OF assms, of cmds] by (simp add: hist_inv_def indices_ok_def)
next
  assume full: "command_count st = BUFFER_SIZE \<and> cmd \<noteq> [] \<and> last (entries st) \<noteq> cmd"
  then have five: "command_count st = 5" by (simp add: BUFFER_SIZE_def)
  then have pos: "0 < command_count st" by simp
  from full newest_entry [OF assms pos]
  have stored: "add_to_buffer st cmd =
         st \<lparr> history := (history st)[nat (next_command st) := cmd],
              next_command := c_rem (next_command st + 1) BUFFER_SIZE,
              command_count := (if command_count st < BUFFER_SIZE
                                then command_count st + 1 else command_count st),
              buffer_index := - 1 \<rparr>"
    by (intro add_to_buffer_store) auto
  with five show "add_to_buffer st cmd =
      st \<lparr> history := (history st)[nat (next_command st) := cmd],
           next_command := c_rem (next_command st + 1) BUFFER_SIZE,
           buffer_index := - 1 \<rparr>"
    by (simp add: BUFFER_SIZE_def)
  show "history st ! nat (next_command st) = hd (entries st)"
    using assms five by (rule oldest_entry)
  from stored five show "command_count (add_to_buffer st cmd) = BUFFER_SIZE"
    by (simp add: BUFFER_SIZE_def)
  from full have "cmd \<noteq> []" and "last (entries st) \<noteq> cmd" by simp_all
  with five show "entries (add_to_buffer st cmd) = tl (entries st) @ [cmd]"
    by (simp add: entries_add [OF assms] push_def length_entries entries_Nil_iff)
next
  assume six: "length cmds = nat BUFFER_SIZE + 1 \<and> distinct cmds \<and> [] \<notin> set cmds"
  then obtain c0 c1 c2 c3 c4 c5 where cmds: "cmds = [c0, c1, c2, c3, c4, c5]"
    by (auto simp: BUFFER_SIZE_def length_Suc_conv eval_nat_numeral)
  from assms have "command_count st \<le> 5"
    by (simp add: hist_inv_def indices_ok_def BUFFER_SIZE_def)
  then have "length (entries st) \<le> 5"
    by (simp add: length_entries)
  with six have last_five: "foldl push (entries st) cmds = [c1, c2, c3, c4, c5]"
    unfolding cmds by (intro push_six) simp_all
  with entries_foldl [OF assms, of cmds]
  have ents: "entries (foldl add_to_buffer st cmds) = [c1, c2, c3, c4, c5]" by simp
  then show "entries (foldl add_to_buffer st cmds) = tl cmds"
    by (simp add: cmds)
  from six show "hd cmds \<notin> set (entries (foldl add_to_buffer st cmds))"
    unfolding ents by (auto simp: cmds)
qed

theorem history_capacity_witness:
  "hist_inv \<lparr> history = [''a'', ''b'', ''c'', ''d'', ''e''], command_count = 5,
              next_command = 0, buffer_index = - 1 \<rparr> \<and>
   add_to_buffer \<lparr> history = [''a'', ''b'', ''c'', ''d'', ''e''], command_count = 5,
                   next_command = 0, buffer_index = - 1 \<rparr> ''f'' =
     \<lparr> history = [''f'', ''b'', ''c'', ''d'', ''e''], command_count = 5,
       next_command = 1, buffer_index = - 1 \<rparr> \<and>
   entries (foldl add_to_buffer
       \<lparr> history = [''a'', ''b'', ''c'', ''d'', ''e''], command_count = 5,
         next_command = 0, buffer_index = - 1 \<rparr>
       [''f'', ''g'', ''h'', ''i'', ''j'', ''k'']) = [''g'', ''h'', ''i'', ''j'', ''k'']"
proof -
  let ?st = "\<lparr> history = [''a'', ''b'', ''c'', ''d'', ''e''], command_count = 5,
               next_command = 0, buffer_index = - 1 \<rparr>"
  have inv: "hist_inv ?st"
    by (simp add: hist_inv_def indices_ok_def BUFFER_SIZE_def)
  have e: "entries ?st = [''a'', ''b'', ''c'', ''d'', ''e'']"
    by (simp add: entries_defs)
  from history_capacity [OF inv, of "[''f'', ''g'', ''h'', ''i'', ''j'', ''k'']" "''f''"] inv
  show ?thesis
    by (simp add: e BUFFER_SIZE_def c_rem_def del: foldl_Cons)
qed

text \<open>
  Claim C5. An append of the empty command, or of a command equal to the newest entry,
  returns the globals as they were: slots, count, write index and cursor. Hence a
  second append of the same command changes nothing after the first.
\<close>

theorem append_suppressed:
  "(cmd = [] \<longrightarrow> add_to_buffer st cmd = st) \<and>
   (hist_inv st \<and> entries st \<noteq> [] \<and> last (entries st) = cmd \<longrightarrow> add_to_buffer st cmd = st) \<and>
   (hist_inv st \<longrightarrow>
      add_to_buffer (add_to_buffer st cmd) cmd = add_to_buffer st cmd \<and>
      length (entries (add_to_buffer (add_to_buffer st cmd) cmd)) =
        length (entries (add_to_buffer st cmd)))"
proof (intro conjI impI)
  assume "cmd = []"
  then show "add_to_buffer st cmd = st" by (simp add: add_to_buffer_skip)
next
  assume a: "hist_inv st \<and> entries st \<noteq> [] \<and> last (entries st) = cmd"
  then have "0 < command_count st" by (simp add: entries_Nil_iff)
  with a show "add_to_buffer st cmd = st"
    using newest_entry [of st] by (intro add_to_buffer_skip) simp
next
  assume inv: "hist_inv st"
  show twice: "add_to_buffer (add_to_buffer st cmd) cmd = add_to_buffer st cmd"
  proof (cases "cmd = []")
    case True
    then show ?thesis by (simp add: add_to_buffer_skip)
  next
    case False
    let ?st' = "add_to_buffer st cmd"
    have inv': "hist_inv ?st'" using inv by (rule hist_inv_add)
    from False have "entries ?st' \<noteq> [] \<and> last (entries ?st') = cmd"
      by (simp add: entries_add [OF inv] push_def)
    then have "0 < command_count ?st'" and "last (entries ?st') = cmd"
      by (simp_all add: entries_Nil_iff)
    then show ?thesis
      using newest_entry [OF inv'] by (intro add_to_buffer_skip) simp
  qed
  then show "length (entries (add_to_buffer (add_to_buffer st cmd) cmd)) =
      length (entries (add_to_buffer st cmd))"
    by simp
qed

theorem append_suppressed_witness:
  "add_to_buffer init_shell [] = init_shell \<and>
   hist_inv (add_to_buffer init_shell ''ls'') \<and>
   entries (add_to_buffer init_shell ''ls'') = [''ls''] \<and>
   add_to_buffer (add_to_buffer init_shell ''ls'') ''ls'' = add_to_buffer init_shell ''ls''"
proof -
  let ?st = "add_to_buffer init_shell ''ls''"
  have inv: "hist_inv ?st" using hist_inv_init by (rule hist_inv_add)
  have e: "entries ?st = [''ls'']"
    by (simp add: entries_add [OF hist_inv_init] push_def)
       (simp add: entries_def init_shell_def)
  from append_suppressed [of "[]" init_shell] append_suppressed [of "''ls''" ?st] inv e
  show ?thesis by simp
qed

section \<open>The browse cursor\<close>

lemma warm_up_empty:
  "command_count st = 0 \<Longrightarrow> buffer_index st = - 1 \<Longrightarrow> warm_up st = st"
  by (simp add: warm_up_def eval_nat_numeral sim_up_def sim_down_def)

lemma warm_up_nonempty:
  assumes "indices_ok st" and "0 < command_count st"
  shows "warm_up st = st \<lparr> buffer_index := - 1 \<rparr>"
proof -
  from assms have c: "command_count st = 1 \<or> command_count st = 2 \<or> command_count st = 3
      \<or> command_count st = 4 \<or> command_count st = 5"
    unfolding indices_ok_def BUFFER_SIZE_def by arith
  from assms have n: "next_command st = 0 \<or> next_command st = 1 \<or> next_command st = 2
      \<or> next_command st = 3 \<or> next_command st = 4"
    unfolding indices_ok_def BUFFER_SIZE_def by arith
  from assms have b: "buffer_index st = - 1 \<or> buffer_index st = 0 \<or> buffer_index st = 1
      \<or> buffer_index st = 2 \<or> buffer_index st = 3 \<or> buffer_index st = 4"
    unfolding indices_ok_def BUFFER_SIZE_def by arith
  from c n b show ?thesis
    by (elim disjE; simp add: warm_up_def eval_nat_numeral cursor_defs)
qed

lemma warm_up_resets:
  assumes "indices_ok st"
  shows "warm_up st = st \<lparr> buffer_index := - 1 \<rparr>"
proof (cases "0 < command_count st")
  case True
  with assms show ?thesis by (rule warm_up_nonempty)
next
  case False
  with assms have "command_count st = 0" and "buffer_index st = - 1"
    by (auto simp: indices_ok_def)
  then show ?thesis by (simp add: warm_up_empty)
qed

text \<open>
  Over an empty history the warm-up has nothing to walk: no simulated up arrow moves
  the cursor, and the five down arrows would take a cursor other than \<open>- 1\<close> once
  round the five slots. No run of the shell reaches such a state: \<open>indices_ok\<close> is
  part of \<open>hist_inv\<close>, which holds at the start and is kept by every pass of the loop
  of \<^verbatim>\<open>main\<close> (\<open>hist_inv_init\<close>, \<open>hist_inv_main_loop\<close>).
\<close>

lemma warm_up_without_history:
  "warm_up \<lparr> history = replicate 5 [], command_count = 0, next_command = 0,
             buffer_index = 2 \<rparr> =
     \<lparr> history = replicate 5 [], command_count = 0, next_command = 0, buffer_index = 2 \<rparr>"
  by (simp add: warm_up_def eval_nat_numeral cursor_defs)

text \<open>
  Claim C6. At the entry of \<^verbatim>\<open>get_input\<close> the cursor is \<open>- 1\<close> or the index of a slot,
  and it is an index only when the history holds an entry (\<open>indices_ok\<close>). Whatever the
  slots hold, the five simulated up arrows followed by the five simulated down arrows
  then change nothing but the cursor, which they leave at \<open>- 1\<close>: the warm-up is the
  assignment \<^verbatim>\<open>buffer_index = -1\<close>, and doing it twice is doing it once.
\<close>

theorem warm_up_normalises_cursor:
  assumes "indices_ok st"
  shows "warm_up st = st \<lparr> buffer_index := - 1 \<rparr> \<and> buffer_index (warm_up st) = - 1 \<and>
         warm_up (warm_up st) = warm_up st"
proof -
  from assms have 1: "warm_up st = st \<lparr> buffer_index := - 1 \<rparr>" by (rule warm_up_resets)
  from assms have "indices_ok (st \<lparr> buffer_index := - 1 \<rparr>)" by (simp add: indices_ok_def)
  then have "warm_up (st \<lparr> buffer_index := - 1 \<rparr>) = st \<lparr> buffer_index := - 1 \<rparr>"
    using warm_up_resets by fastforce
  with 1 show ?thesis by simp
qed

theorem warm_up_normalises_cursor_witness:
  "indices_ok \<lparr> history = [''a'', ''b'', ''c'', ''d'', ''e''], command_count = 5,
                next_command = 3, buffer_index = 1 \<rparr> \<and>
   warm_up \<lparr> history = [''a'', ''b'', ''c'', ''d'', ''e''], command_count = 5,
             next_command = 3, buffer_index = 1 \<rparr> =
     \<lparr> history = [''a'', ''b'', ''c'', ''d'', ''e''], command_count = 5,
       next_command = 3, buffer_index = - 1 \<rparr>"
proof -
  let ?st = "\<lparr> history = [''a'', ''b'', ''c'', ''d'', ''e''], command_count = 5,
               next_command = 3, buffer_index = 1 \<rparr>"
  have ok: "indices_ok ?st" by (simp add: indices_ok_def BUFFER_SIZE_def)
  from warm_up_normalises_cursor [OF ok] ok show ?thesis by simp
qed

lemma ed_shell_load_entry: "ed_shell (load_entry e) = ed_shell e"
  by (simp add: load_entry_def Let_def)

lemma ed_shell_key_up: "ed_shell (key_up e) = sim_up (ed_shell e)"
  by (simp add: key_up_def sim_up_def Let_def ed_shell_load_entry)

lemma ed_shell_key_down: "ed_shell (key_down e) = sim_down (ed_shell e)"
  by (simp add: key_down_def sim_down_def Let_def ed_shell_load_entry)

lemma ed_shell_backspace: "ed_shell (backspace e) = ed_shell e"
  by (simp add: backspace_def)

lemma ed_shell_insert_char: "ed_shell (insert_char e c) = ed_shell e"
  by (simp add: insert_char_def)

lemma ed_shell_key_up_funpow: "ed_shell ((key_up ^^ k) e) = (sim_up ^^ k) (ed_shell e)"
  by (induction k) (simp_all add: ed_shell_key_up)

lemma ed_shell_key_down_funpow: "ed_shell ((key_down ^^ k) e) = (sim_down ^^ k) (ed_shell e)"
  by (induction k) (simp_all add: ed_shell_key_down)

lemma round_trip_partial:
  assumes c: "command_count st = 1 \<or> command_count st = 2 \<or> command_count st = 3
      \<or> command_count st = 4"
    and nb: "buffer_index st = - 1" and k: "int k \<le> command_count st"
  shows "buffer_index ((sim_down ^^ k) ((sim_up ^^ k) st)) = - 1"
proof -
  from c k have kk: "k = 0 \<or> k = 1 \<or> k = 2 \<or> k = 3 \<or> k = 4"
    by arith
  from c kk k nb show ?thesis
    by (elim disjE; simp add: eval_nat_numeral cursor_defs)
qed

lemma round_trip_full:
  assumes c: "command_count st = 5"
    and n: "next_command st = 0 \<or> next_command st = 1 \<or> next_command st = 2
      \<or> next_command st = 3 \<or> next_command st = 4"
    and nb: "buffer_index st = - 1" and k: "int k \<le> command_count st"
  shows "buffer_index ((sim_down ^^ k) ((sim_up ^^ k) st)) = - 1"
proof -
  from c k have kk: "k = 0 \<or> k = 1 \<or> k = 2 \<or> k = 3 \<or> k = 4 \<or> k = 5"
    by arith
  from n kk c nb show ?thesis
    by (elim disjE; simp add: eval_nat_numeral cursor_defs)
qed

lemma round_trip:
  assumes "indices_ok st" and "buffer_index st = - 1" and "0 < command_count st"
    and "int k \<le> command_count st"
  shows "buffer_index ((sim_down ^^ k) ((sim_up ^^ k) st)) = - 1"
proof (cases "command_count st = 5")
  case True
  moreover from assms(1) have "next_command st = 0 \<or> next_command st = 1 \<or>
      next_command st = 2 \<or> next_command st = 3 \<or> next_command st = 4"
    unfolding indices_ok_def BUFFER_SIZE_def by arith
  ultimately show ?thesis using assms(2,4) by (rule round_trip_full)
next
  case False
  with assms(1,3) have "command_count st = 1 \<or> command_count st = 2 \<or>
      command_count st = 3 \<or> command_count st = 4"
    unfolding indices_ok_def BUFFER_SIZE_def by arith
  then show ?thesis using assms(2,4) by (rule round_trip_partial)
qed

lemma loop_up_keys:
  "get_input_loop e (up_keys k @ rest) = get_input_loop ((key_up ^^ k) e) rest"
  by (induction k arbitrary: e)
     (simp_all add: up_keys_def funpow_Suc_right del: funpow.simps)

lemma loop_down_keys:
  "get_input_loop e (down_keys k @ rest) = get_input_loop ((key_down ^^ k) e) rest"
  by (induction k arbitrary: e)
     (simp_all add: down_keys_def funpow_Suc_right del: funpow.simps)

text \<open>
  Claim C7. With \<open>s > 0\<close> entries and the cursor at \<open>- 1\<close>, \<open>k \<le> s\<close> up arrows followed
  by \<open>k\<close> down arrows leave the cursor at \<open>- 1\<close>. The arrows are those of the editing
  loop: reading the bytes of \<open>k\<close> up arrows and \<open>k\<close> down arrows is applying the up
  handler \<open>k\<close> times and then the down handler \<open>k\<close> times.
\<close>

theorem up_then_down_returns_to_not_browsing:
  assumes "indices_ok (ed_shell e)" and "buffer_index (ed_shell e) = - 1"
    and "0 < command_count (ed_shell e)" and "int k \<le> command_count (ed_shell e)"
  shows "buffer_index (ed_shell ((key_down ^^ k) ((key_up ^^ k) e))) = - 1 \<and>
         get_input_loop e (up_keys k @ down_keys k @ rest) =
           get_input_loop ((key_down ^^ k) ((key_up ^^ k) e)) rest"
  using round_trip [OF assms]
  by (simp add: ed_shell_key_up_funpow ed_shell_key_down_funpow loop_up_keys loop_down_keys)

theorem up_then_down_returns_to_not_browsing_witness:
  "buffer_index (ed_shell ((key_down ^^ 2) ((key_up ^^ 2)
     \<lparr> ed_shell = \<lparr> history = [''a'', ''b'', ''c'', [], []], command_count = 3,
                     next_command = 3, buffer_index = - 1 \<rparr>,
       ed_buf = [], ed_count = 0, ed_out = [] \<rparr>))) = - 1"
proof -
  let ?e = "\<lparr> ed_shell = \<lparr> history = [''a'', ''b'', ''c'', [], []], command_count = 3,
                     next_command = 3, buffer_index = - 1 \<rparr>,
       ed_buf = [], ed_count = 0, ed_out = [] \<rparr>"
  have "indices_ok (ed_shell ?e)" by (simp add: indices_ok_def BUFFER_SIZE_def)
  from up_then_down_returns_to_not_browsing [OF this, of 2] show ?thesis by simp
qed

section \<open>What the line editor preserves\<close>

lemma stored_sim_up: "stored (sim_up st) = stored st"
  by (simp add: stored_def sim_up_def)

lemma stored_sim_down: "stored (sim_down st) = stored st"
  by (simp add: stored_def sim_down_def)

lemma stored_warm_up: "stored (warm_up st) = stored st"
  by (simp add: warm_up_def eval_nat_numeral stored_sim_up stored_sim_down)

lemma stored_loop: "stored (ed_shell (fst (get_input_loop e inp))) = stored (ed_shell e)"
  by (induction e inp rule: get_input_loop.induct)
     (simp_all add: stored_def [of "ed_shell (e\<lparr>ed_buf := b, ed_out := out\<rparr>)" for e b out]
        ed_shell_key_up ed_shell_key_down ed_shell_backspace
        ed_shell_insert_char stored_sim_up stored_sim_down split: list.splits)

lemma stored_get_input: "stored (ed_shell (fst (get_input st inp))) = stored st"
  by (simp add: get_input_def stored_loop stored_warm_up)

lemma hist_inv_loop:
  "hist_inv (ed_shell e) \<Longrightarrow> hist_inv (ed_shell (fst (get_input_loop e inp)))"
  by (induction e inp rule: get_input_loop.induct)
     (simp_all add: ed_shell_key_up ed_shell_key_down ed_shell_backspace
        ed_shell_insert_char hist_inv_sim_up hist_inv_sim_down split: list.splits)

lemma hist_inv_get_input:
  assumes "hist_inv st"
  shows "hist_inv (ed_shell (fst (get_input st inp)))"
proof -
  from assms have "indices_ok st" by (simp add: hist_inv_def)
  then have "warm_up st = st \<lparr> buffer_index := - 1 \<rparr>" by (rule warm_up_resets)
  with assms have "hist_inv (warm_up st)" by (simp add: hist_inv_def indices_ok_def)
  then show ?thesis by (simp add: get_input_def hist_inv_loop)
qed

lemma count_load_entry: "0 \<le> ed_count (load_entry e)"
  by (simp add: load_entry_def Let_def)

lemma count_key_up: "0 \<le> ed_count e \<Longrightarrow> 0 \<le> ed_count (key_up e)"
  by (simp add: key_up_def Let_def count_load_entry)

lemma count_key_down: "0 \<le> ed_count e \<Longrightarrow> 0 \<le> ed_count (key_down e)"
  by (simp add: key_down_def Let_def count_load_entry)

lemma count_backspace: "0 \<le> ed_count e \<Longrightarrow> 0 \<le> ed_count (backspace e)"
  by (simp add: backspace_def)

lemma count_insert_char: "0 \<le> ed_count e \<Longrightarrow> 0 \<le> ed_count (insert_char e c)"
  by (simp add: insert_char_def)

lemma count_loop: "0 \<le> ed_count e \<Longrightarrow> 0 \<le> ed_count (fst (get_input_loop e inp))"
  by (induction e inp rule: get_input_loop.induct)
     (simp_all add: count_key_up count_key_down count_backspace count_insert_char
        split: list.splits)

lemma count_get_input: "0 \<le> ed_count (fst (get_input st inp))"
  by (simp add: get_input_def count_loop)

lemma key_up_empty: "command_count (ed_shell e) = 0 \<Longrightarrow> key_up e = e"
  by (simp add: key_up_def)

lemma key_down_idle: "buffer_index (ed_shell e) = - 1 \<Longrightarrow> key_down e = e"
  by (simp add: key_down_def)

lemma loop_empty_history:
  "command_count (ed_shell e) = 0 \<Longrightarrow> buffer_index (ed_shell e) = - 1 \<Longrightarrow>
     ed_shell (fst (get_input_loop e inp)) = ed_shell e"
  by (induction e inp rule: get_input_loop.induct)
     (simp_all add: key_up_empty key_down_idle ed_shell_backspace ed_shell_insert_char
        split: list.splits)

lemma get_input_empty_history:
  "command_count st = 0 \<Longrightarrow> buffer_index st = - 1 \<Longrightarrow> ed_shell (fst (get_input st inp)) = st"
  by (simp add: get_input_def loop_empty_history warm_up_empty)

lemma launch_load_entry: "filter is_launch (ed_out (load_entry e)) = filter is_launch (ed_out e)"
  by (simp add: load_entry_def Let_def)

lemma launch_key_up: "filter is_launch (ed_out (key_up e)) = filter is_launch (ed_out e)"
  by (simp add: key_up_def Let_def launch_load_entry)

lemma launch_key_down: "filter is_launch (ed_out (key_down e)) = filter is_launch (ed_out e)"
  by (simp add: key_down_def Let_def launch_load_entry)

lemma launch_backspace: "filter is_launch (ed_out (backspace e)) = filter is_launch (ed_out e)"
  by (simp add: backspace_def)

lemma launch_insert_char:
  "filter is_launch (ed_out (insert_char e c)) = filter is_launch (ed_out e)"
  by (simp add: insert_char_def)

lemma launch_loop:
  "filter is_launch (ed_out (fst (get_input_loop e inp))) = filter is_launch (ed_out e)"
  by (induction e inp rule: get_input_loop.induct)
     (simp_all add: launch_key_up launch_key_down launch_backspace launch_insert_char
        split: list.splits)

lemma launch_get_input: "filter is_launch (ed_out (fst (get_input st inp))) = []"
  by (simp add: get_input_def launch_loop)

section \<open>The shell loop: invariant and end of input\<close>

lemma run_line_recall:
  "run_line st ''!!'' =
     (if command_count st = 0 then (False, st, [Out no_history_msg])
      else
        (let last_cmd = history st ! nat (c_rem (next_command st - 1 + BUFFER_SIZE) BUFFER_SIZE)
         in (fst (execute last_cmd), st, Out (last_cmd @ [CHR 0x0A]) # snd (execute last_cmd))))"
  by (simp add: run_line_def recall_or_record_def Let_def split: prod.splits)

lemma hist_inv_run_line: "hist_inv st \<Longrightarrow> hist_inv (fst (snd (run_line st input)))"
  by (simp add: run_line_def recall_or_record_def Let_def hist_inv_add split: prod.splits)

lemma hist_inv_main_iter:
  assumes "hist_inv st"
  shows "hist_inv (fst (snd (main_iter st inp)))"
proof -
  obtain e rest where g: "get_input st inp = (e, rest)" by (cases "get_input st inp")
  with hist_inv_get_input [OF assms, of inp] have "hist_inv (ed_shell e)" by simp
  with g hist_inv_run_line [of "ed_shell e" "c_str (ed_buf e)"] show ?thesis
    by (auto simp: main_iter_def split: prod.splits)
qed

lemma hist_inv_main_loop: "hist_inv st \<Longrightarrow> hist_inv (fst (snd (main_loop n st inp)))"
proof (induction n arbitrary: st inp)
  case 0
  then show ?case by simp
next
  case (Suc n)
  obtain r st' rest evs where it: "main_iter st inp = (r, st', rest, evs)"
    by (cases "main_iter st inp")
  with hist_inv_main_iter [OF Suc.prems, of inp] have inv': "hist_inv st'" by simp
  obtain r' st'' evs' where lp: "main_loop n st' rest = (r', st'', evs')"
    by (cases "main_loop n st' rest")
  with Suc.IH [OF inv', of rest] have "hist_inv st''" by simp
  with inv' it lp show ?case by (cases r) simp_all
qed

lemma main_iter_not_Returned: "fst (main_iter st inp) \<noteq> Returned"
proof -
  obtain e rest where g: "get_input st inp = (e, rest)" by (cases "get_input st inp")
  with count_get_input [of st inp] have "\<not> ed_count e < 0" by simp
  with g show ?thesis
    by (simp add: main_iter_def split: prod.splits)
qed

lemma main_loop_not_Returned: "fst (main_loop n st inp) \<noteq> Returned"
proof (induction n arbitrary: st inp)
  case 0
  show ?case by simp
next
  case (Suc n)
  obtain r st' rest evs where it: "main_iter st inp = (r, st', rest, evs)"
    by (cases "main_iter st inp")
  with main_iter_not_Returned [of st inp] have r: "r \<noteq> Returned" by simp
  obtain r' st'' evs' where lp: "main_loop n st' rest = (r', st'', evs')"
    by (cases "main_loop n st' rest")
  with Suc.IH [of st' rest] have "r' \<noteq> Returned" by simp
  with r it lp show ?case by (cases r) simp_all
qed

lemma main_iter_eof: "main_iter init_shell [] = (Running, init_shell, [], [Prompt])"
  by (simp add: main_iter_def get_input_def warm_up_empty init_shell_def run_line_def c_str_def)

text \<open>
  Claim C1, on the code. At the end of the stream \<^verbatim>\<open>get_input\<close> leaves its loop, but
  what it returns is \<^verbatim>\<open>count\<close>, which is never negative; so the test
  \<^verbatim>\<open>get_input(input) < 0\<close> of \<^verbatim>\<open>main\<close> never holds and \<^verbatim>\<open>main\<close> never leaves its loop by
  the \<^verbatim>\<open>break\<close>, on any input. On an input stream that is empty from the start every
  pass prints the prompt, reads nothing and goes round again: after any number \<open>n\<close> of
  passes the shell is still running, having printed \<open>n\<close> prompts.
\<close>

theorem end_of_input_does_not_end_main:
  "0 \<le> ed_count (fst (get_input st inp)) \<and>
   fst (main_loop n st inp) \<noteq> Returned \<and>
   main_loop n init_shell [] = (Running, init_shell, replicate n Prompt)"
proof -
  have "main_loop n init_shell [] = (Running, init_shell, replicate n Prompt)"
    by (induction n) (simp_all add: main_iter_eof)
  then show ?thesis
    by (simp add: count_get_input main_loop_not_Returned)
qed

section \<open>Escape sequences\<close>

text \<open>
  Claim C3, as the code has it. After ESC the loop reads two more bytes before it looks
  at either. ESC \<open>[\<close> \<open>A\<close> is the up arrow and ESC \<open>[\<close> \<open>B\<close> the down arrow; after any
  other pair, whether or not its first byte is \<open>[\<close>, the loop goes on with the editor as
  it was, both bytes used up. When the stream ends inside the sequence the editor is
  returned as it was.
\<close>

theorem escape_reads_two_bytes:
  "get_input_loop e (Byte (CHR 0x1B) # Byte x # Byte y # rest) =
     (if x = CHR ''['' \<and> y = CHR ''A'' then get_input_loop (key_up e) rest
      else if x = CHR ''['' \<and> y = CHR ''B'' then get_input_loop (key_down e) rest
      else get_input_loop e rest) \<and>
   get_input_loop e [Byte (CHR 0x1B)] = (e, []) \<and>
   get_input_loop e [Byte (CHR 0x1B), Byte x] = (e, [])"
  by simp

text \<open>
  The claim as the specification states it fails: after ESC \<open>x\<close> the byte \<open>y\<close> is read
  and dropped, so ESC \<open>x\<close> \<open>y\<close> Enter gives the empty line, where \<open>y\<close> Enter gives the
  line \<open>y\<close>.
\<close>

theorem escape_discards_next_byte:
  "c_str (ed_buf (fst (get_input init_shell
       [Byte (CHR 0x1B), Byte (CHR ''x''), Byte (CHR ''y''), Byte (CHR 0x0A)]))) = [] \<and>
   c_str (ed_buf (fst (get_input init_shell [Byte (CHR ''y''), Byte (CHR 0x0A)]))) = ''y''"
  by (simp add: get_input_def insert_char_def MAX_LENGTH_def poke_def c_str_def NUL_def)

section \<open>The recall token\<close>

text \<open>
  Claim C9. When the line that \<^verbatim>\<open>get_input\<close> hands to \<^verbatim>\<open>main\<close> is \<open>!!\<close> and the history
  is empty, the pass through the loop prints \<open>No commands in history.\<close> and a newline
  after the echo of the editor, and nothing else: no event of the pass starts a
  process. The loop goes
  on, with the history as it was before the pass; the globals as a whole are as they
  were when the cursor was \<open>- 1\<close>, as it is over an empty history.
\<close>

theorem recall_on_empty_history:
  assumes "command_count st = 0" and "get_input st inp = (e, rest)"
    and "c_str (ed_buf e) = ''!!''"
  shows "main_iter st inp =
           (Running, ed_shell e, rest,
            Prompt # ed_out e @ [Out (''No commands in history.'' @ [CHR 0x0A])]) \<and>
         filter is_launch (Prompt # ed_out e @ [Out (''No commands in history.'' @ [CHR 0x0A])])
           = [] \<and>
         history (ed_shell e) = history st \<and> command_count (ed_shell e) = 0 \<and>
         next_command (ed_shell e) = next_command st \<and>
         (buffer_index st = - 1 \<longrightarrow> ed_shell e = st)"
proof -
  from assms(2) have s: "stored (ed_shell e) = stored st"
    using stored_get_input [of st inp] by simp
  with assms(1) have c: "command_count (ed_shell e) = 0" by (simp add: stored_def)
  from assms(2) have n: "\<not> ed_count e < 0" using count_get_input [of st inp] by simp
  have "main_iter st inp =
           (Running, ed_shell e, rest, Prompt # ed_out e @ [Out no_history_msg])"
    using assms(2,3) n c by (simp add: main_iter_def run_line_recall)
  moreover have "buffer_index st = - 1 \<longrightarrow> ed_shell e = st"
    using get_input_empty_history [of st inp] assms(1,2) by simp
  moreover have "filter is_launch (ed_out e) = []"
    using launch_get_input [of st inp] assms(2) by simp
  ultimately show ?thesis using s assms(1) by (simp add: stored_def no_history_msg_def)
qed

theorem recall_on_empty_history_witness:
  "main_iter init_shell [Byte (CHR ''!''), Byte (CHR ''!''), Byte (CHR 0x0A)] =
     (Running, init_shell, [],
      [Prompt, Out ''!'', Out ''!'', Out [CHR 0x0A],
       Out (''No commands in history.'' @ [CHR 0x0A])])"
proof -
  let ?inp = "[Byte (CHR ''!''), Byte (CHR ''!''), Byte (CHR 0x0A)]"
  let ?e = "\<lparr> ed_shell = init_shell, ed_buf = ''!!'' @ [NUL], ed_count = 2,
              ed_out = [Out ''!'', Out ''!'', Out [CHR 0x0A]] \<rparr>"
  have 1: "command_count init_shell = 0" by (simp add: init_shell_def)
  have 2: "get_input init_shell ?inp = (?e, [])"
    by (simp add: get_input_def warm_up_empty init_shell_def insert_char_def MAX_LENGTH_def
        poke_def)
  have 3: "c_str (ed_buf ?e) = ''!!''" by (simp add: c_str_def NUL_def)
  from recall_on_empty_history [OF 1 2 3] show ?thesis by simp
qed

text \<open>
  Claim C10. A pass through the loop of \<^verbatim>\<open>main\<close> whose line is \<open>!!\<close> leaves the slots,
  the count and the write index as they were before the pass, whatever the history
  holds: the globals after the pass are those \<^verbatim>\<open>get_input\<close> returned. Over a non-empty
  history the newest entry is printed and run (and the shell exits if that entry is
  \<^verbatim>\<open>exit\<close>), without a call of \<^verbatim>\<open>add_to_buffer\<close>.
\<close>

theorem recall_leaves_history_unchanged:
  assumes "get_input st inp = (e, rest)" and "c_str (ed_buf e) = ''!!''"
    and "main_iter st inp = (r, st', rest', evs)"
  shows "history st' = history st \<and> command_count st' = command_count st \<and>
         next_command st' = next_command st \<and> st' = ed_shell e \<and> rest' = rest \<and>
         (0 < command_count st \<longrightarrow>
            (let last_cmd =
               history st ! nat (c_rem (next_command st - 1 + BUFFER_SIZE) BUFFER_SIZE)
             in r = (if fst (execute last_cmd) then Exited else Running) \<and>
                evs = Prompt # ed_out e @
                  Out (last_cmd @ [CHR 0x0A]) # snd (execute last_cmd)))"
proof -
  from assms(1) have s: "stored (ed_shell e) = stored st"
    using stored_get_input [of st inp] by simp
  from assms(1) have n: "\<not> ed_count e < 0" using count_get_input [of st inp] by simp
  from assms n have st': "st' = ed_shell e \<and> rest' = rest"
    by (auto simp: main_iter_def run_line_recall Let_def split: if_splits)
  from assms n s have "0 < command_count st \<longrightarrow>
            (let last_cmd =
               history st ! nat (c_rem (next_command st - 1 + BUFFER_SIZE) BUFFER_SIZE)
             in r = (if fst (execute last_cmd) then Exited else Running) \<and>
                evs = Prompt # ed_out e @
                  Out (last_cmd @ [CHR 0x0A]) # snd (execute last_cmd))"
    by (auto simp: main_iter_def run_line_recall Let_def stored_def split: if_splits)
  with st' s show ?thesis by (simp add: stored_def)
qed

lemma execute_ls: "execute ''ls'' = (False, [Spawn [''ls''] False None None])"
  by code_simp

theorem recall_leaves_history_unchanged_witness:
  "main_iter \<lparr> history = [''ls'', [], [], [], []], command_count = 1, next_command = 1,
               buffer_index = - 1 \<rparr>
     [Byte (CHR ''!''), Byte (CHR ''!''), Byte (CHR 0x0A)] =
   (Running,
    \<lparr> history = [''ls'', [], [], [], []], command_count = 1, next_command = 1,
      buffer_index = - 1 \<rparr>,
    [],
    [Prompt, Out ''!'', Out ''!'', Out [CHR 0x0A], Out (''ls'' @ [CHR 0x0A]),
     Spawn [''ls''] False None None])"
proof -
  let ?st = "\<lparr> history = [''ls'', [], [], [], []], command_count = 1, next_command = 1,
               buffer_index = - 1 \<rparr>"
  let ?inp = "[Byte (CHR ''!''), Byte (CHR ''!''), Byte (CHR 0x0A)]"
  let ?e = "\<lparr> ed_shell = ?st, ed_buf = ''!!'' @ [NUL], ed_count = 2,
              ed_out = [Out ''!'', Out ''!'', Out [CHR 0x0A]] \<rparr>"
  have w: "warm_up ?st = ?st"
    by (simp add: warm_up_def eval_nat_numeral cursor_defs)
  have 1: "get_input ?st ?inp = (?e, [])"
    by (simp add: get_input_def w insert_char_def MAX_LENGTH_def poke_def)
  have 2: "c_str (ed_buf ?e) = ''!!''" by (simp add: c_str_def NUL_def)
  obtain r st' rest' evs where 3: "main_iter ?st ?inp = (r, st', rest', evs)"
    by (cases "main_iter ?st ?inp")
  from recall_leaves_history_unchanged [OF 1 2 3] show ?thesis
    unfolding 3 by (simp add: c_rem_def BUFFER_SIZE_def execute_ls)
qed

section \<open>Tokenizer and redirection\<close>

lemma divide_loop_all:
  "int (length args) + int (length (filter (\<lambda>t. t \<noteq> ''&'') segs)) < MAX_ARGS - 1 \<Longrightarrow>
     divide_loop segs args bg =
       (args @ filter (\<lambda>t. t \<noteq> ''&'') segs, bg \<or> ''&'' \<in> set segs)"
  by (induction segs arbitrary: args bg) (auto simp: MAX_ARGS_def)

lemma divide_loop_args:
  "length args \<le> 63 \<Longrightarrow>
     fst (divide_loop segs args bg) =
       args @ take (63 - length args) (filter (\<lambda>t. t \<noteq> ''&'') segs)"
  by (induction segs arbitrary: args bg) (auto simp: MAX_ARGS_def take_Cons')

lemma strtok_from_tokens:
  "t \<in> set (strtok_from cur s) \<Longrightarrow> CHR '' '' \<notin> set cur \<Longrightarrow> t \<noteq> [] \<and> CHR '' '' \<notin> set t"
  by (induction cur s rule: strtok_from.induct) (auto split: if_splits)

text \<open>
  Claim C8, as the code has it. The line is split at its spaces: a token is never
  empty and holds no space. A token \<open>&\<close> is never stored: the argument vector is the
  first 63 tokens other than \<open>&\<close>, in order and closed by \<^verbatim>\<open>NULL\<close>, and the count is
  their number. As long as the line has fewer than 63 tokens other than \<open>&\<close>, the loop
  reaches every token, and the flag is set when one of the tokens is \<open>&\<close>. So \<open>ls -l &\<close>
  gives \<open>ls\<close>, \<open>-l\<close>, the count 2 and the flag.
\<close>

theorem ampersand_sets_background:
  "(\<forall>t \<in> set (strtok_all input). t \<noteq> [] \<and> CHR '' '' \<notin> set t) \<and>
   fst (divide_args input bg) =
     map Some (take 63 (filter (\<lambda>t. t \<noteq> ''&'') (strtok_all input))) @ [None] \<and>
   fst (snd (divide_args input bg)) =
     int (length (take 63 (filter (\<lambda>t. t \<noteq> ''&'') (strtok_all input)))) \<and>
   (int (length (filter (\<lambda>t. t \<noteq> ''&'') (strtok_all input))) < MAX_ARGS - 1 \<longrightarrow>
      divide_args input bg =
        (map Some (filter (\<lambda>t. t \<noteq> ''&'') (strtok_all input)) @ [None],
         int (length (filter (\<lambda>t. t \<noteq> ''&'') (strtok_all input))),
         bg \<or> ''&'' \<in> set (strtok_all input)))"
proof (intro conjI impI)
  show "\<forall>t \<in> set (strtok_all input). t \<noteq> [] \<and> CHR '' '' \<notin> set t"
    using strtok_from_tokens [of _ "[]" input] by (simp add: strtok_all_def)
  have args: "fst (divide_loop (strtok_all input) [] bg) =
      take 63 (filter (\<lambda>t. t \<noteq> ''&'') (strtok_all input))"
    using divide_loop_args [of "[]" "strtok_all input" bg] by simp
  then show "fst (divide_args input bg) =
      map Some (take 63 (filter (\<lambda>t. t \<noteq> ''&'') (strtok_all input))) @ [None]"
    by (cases "divide_loop (strtok_all input) [] bg") (simp add: divide_args_def)
  from args show "fst (snd (divide_args input bg)) =
      int (length (take 63 (filter (\<lambda>t. t \<noteq> ''&'') (strtok_all input))))"
    by (cases "divide_loop (strtok_all input) [] bg") (simp add: divide_args_def)
  assume "int (length (filter (\<lambda>t. t \<noteq> ''&'') (strtok_all input))) < MAX_ARGS - 1"
  then have "divide_loop (strtok_all input) [] bg =
      (filter (\<lambda>t. t \<noteq> ''&'') (strtok_all input), bg \<or> ''&'' \<in> set (strtok_all input))"
    using divide_loop_all [of "[]" "strtok_all input" bg] by simp
  then show "divide_args input bg =
        (map Some (filter (\<lambda>t. t \<noteq> ''&'') (strtok_all input)) @ [None],
         int (length (filter (\<lambda>t. t \<noteq> ''&'') (strtok_all input))),
         bg \<or> ''&'' \<in> set (strtok_all input))"
    by (simp add: divide_args_def)
qed

theorem ampersand_sets_background_witness:
  "strtok_all ''ls -l &'' = [''ls'', ''-l'', ''&''] \<and>
   divide_args ''ls -l &'' False = ([Some ''ls'', Some ''-l'', None], 2, True)"
proof -
  have t: "strtok_all ''ls -l &'' = [''ls'', ''-l'', ''&'']"
    by (simp add: strtok_all_def)
  from ampersand_sets_background [of "''ls -l &''" False] show ?thesis
    by (simp add: t MAX_ARGS_def)
qed

text \<open>
  The claim as the specification states it fails: the loop stops once 63 arguments
  are stored, so a \<open>&\<close> behind them is not read and the flag stays unset.
\<close>

theorem ampersand_after_63_arguments:
  "divide_args (concat (replicate 63 ''a '') @ ''&'') False =
     (map Some (replicate 63 ''a'') @ [None], 63, False)"
  by code_simp

text \<open>
  Claim C2, as the code has it. For the line \<open>sort < a.txt > b.txt\<close> there is no pipe,
  and the resolver stops at the first operator: \<open>a.txt\<close> is the input file, there is no
  output file, and the vector is cut at the \<open><\<close>. The command runs as \<open>sort\<close> alone, with
  its input from \<open>a.txt\<close>; the \<open>>\<close> and \<open>b.txt\<close> stay in the array behind the \<^verbatim>\<open>NULL\<close>,
  where \<^verbatim>\<open>execvp\<close> does not see them.
\<close>

theorem redirect_first_operator_only:
  "divide_args ''sort < a.txt > b.txt'' False =
     ([Some ''sort'', Some ''<'', Some ''a.txt'', Some ''>'', Some ''b.txt'', None], 5, False) \<and>
   handle_pipe
     [Some ''sort'', Some ''<'', Some ''a.txt'', Some ''>'', Some ''b.txt'', None] 5 = None \<and>
   handle_input_or_output
     [Some ''sort'', Some ''<'', Some ''a.txt'', Some ''>'', Some ''b.txt'', None] 5 None None =
     ([Some ''sort'', None, Some ''a.txt'', Some ''>'', Some ''b.txt'', None],
      Some ''a.txt'', None) \<and>
   execute ''sort < a.txt > b.txt'' = (False, [Spawn [''sort''] False (Some ''a.txt'') None])"
  by code_simp

text \<open>
  The claim as the specification states it fails: the \<open>>\<close> and \<open>b.txt\<close> are not among
  the arguments the command receives.
\<close>

theorem redirect_drops_trailing_tokens:
  "\<not> (''>'' \<in> set (argv_of (fst (handle_input_or_output
            (fst (divide_args ''sort < a.txt > b.txt'' False)) 5 None None))) \<and>
      ''b.txt'' \<in> set (argv_of (fst (handle_input_or_output
            (fst (divide_args ''sort < a.txt > b.txt'' False)) 5 None None))))"
proof -
  have "argv_of (fst (handle_input_or_output
            (fst (divide_args ''sort < a.txt > b.txt'' False)) 5 None None)) = [''sort'']"
    by code_simp
  then show ?thesis by simp
qed

end
